theory Spec2Isabelle
  imports Complex_Main "HOL-Library.Sublist"
begin

section \<open>FedBot's extractive summarizer (\<open>summarize\<close> in fedbot.py)\<close>

text \<open>
  The function under study:
  \<^verbatim>\<open>
  def summarize(text: str, num_sentences: int = DEFAULT_SENTENCES) -> str:
      sentences = sent_tokenize(text)
      words = [[j for j in word_tokenize(i)
                if j not in ignored_words and j not in string.punctuation] for i in sentences]
      if not words:  # Return whole text if cannot extract any distinguishing words
          return sentences
      word_freq = collections.Counter(itertools.chain.from_iterable(words))
      logger.info(word_freq)
      max_freq = list(word_freq.values())[0]  # Valid if Counter is sorted high-to-low, which it is
      freq_by_sentence = collections.Counter(
          {i: sum(word_freq[k] / max_freq for k in j) / len(j) for (i, j) in enumerate(words)}
      )
      return " ".join(sentences[j] for j in sorted(i[0] for i in freq_by_sentence.most_common(num_sentences)))
  \<close>
  The NLTK collaborators \<open>sent_tokenize\<close>, \<open>word_tokenize\<close> and the stopword list
  \<open>ignored_words\<close> are parameters of the model. Exceptions are values of type \<open>error\<close>.
  Python's floats are idealised as exact rationals; token counts are Python ints.
\<close>

subsection \<open>Errors and return values\<close>

datatype error = IndexError | ZeroDivisionError

text \<open>
  The function is annotated \<open>-> str\<close>, but its first \<open>return\<close> hands back the list
  \<open>sentences\<close>; the model keeps the two kinds of value apart.
\<close>

datatype retval = Sentences "string list" | Summary string

subsection \<open>Constants\<close>

definition DEFAULT_SENTENCES :: int where
  "DEFAULT_SENTENCES = 5"

text \<open>\<open>string.punctuation\<close>, the 32 ASCII punctuation characters in code order.\<close>

definition punctuation :: string where
  "punctuation =
     ''!'' @ [CHR 0x22] @ ''#$%&'' @ [CHR 0x27] @ ''()*+,-./:;<=>?@['' @ [CHR 0x5C]
       @ '']^_'' @ [CHR 0x60] @ ''{|}~''"

subsection \<open>Token filter\<close>

text \<open>
  \<open>j not in ignored_words\<close> is list membership; \<open>j not in string.punctuation\<close> is
  Python's substring test on strings, so a token is dropped when it occurs as a
  contiguous piece of \<open>punctuation\<close> (the empty token included).
\<close>

definition significant :: "string list \<Rightarrow> string \<Rightarrow> bool" where
  "significant ignored_words j \<longleftrightarrow> j \<notin> set ignored_words \<and> \<not> sublist j punctuation"

definition filter_words :: "string list \<Rightarrow> string list \<Rightarrow> string list" where
  "filter_words ignored_words toks = filter (significant ignored_words) toks"

subsection \<open>\<open>collections.Counter\<close>\<close>

text \<open>
  A Counter is a dict, and a dict iterates in insertion order: an association list
  with a key's entry created at the key's first occurrence and updated in place later.
\<close>

fun counter_incr :: "'a \<Rightarrow> ('a \<times> int) list \<Rightarrow> ('a \<times> int) list" where
  "counter_incr x [] = [(x, 1)]"
| "counter_incr x ((y, n) # c) =
     (if x = y then (y, n + 1) # c else (y, n) # counter_incr x c)"

definition Counter :: "'a list \<Rightarrow> ('a \<times> int) list" where
  "Counter xs = foldl (\<lambda>c x. counter_incr x c) [] xs"

text \<open>\<open>word_freq[k]\<close>: a Counter answers 0 for a missing key.\<close>

definition counter_get :: "('a \<times> int) list \<Rightarrow> 'a \<Rightarrow> int" where
  "counter_get c k = (case map_of c k of None \<Rightarrow> 0 | Some n \<Rightarrow> n)"

text \<open>\<open>list(word_freq.values())[0]\<close>: the count of the first key, IndexError on an empty Counter.\<close>

definition max_freq :: "('a \<times> int) list \<Rightarrow> error + int" where
  "max_freq word_freq = (case word_freq of [] \<Rightarrow> Inl IndexError | (_, n) # _ \<Rightarrow> Inr n)"

subsection \<open>Scores\<close>

text \<open>
  True division \<open>a / b\<close>, raising on a zero divisor. The quotient is exact here; the
  source rounds it to a double, and so does each addition of \<open>sum\<close>. Statements about
  ranking and ties below are therefore made for arbitrary score lists, not for the
  scores computed here.
\<close>

definition truediv :: "rat \<Rightarrow> rat \<Rightarrow> error + rat" where
  "truediv a b = (if b = 0 then Inl ZeroDivisionError else Inr (a / b))"

text \<open>\<open>sum(word_freq[k] / max_freq for k in j)\<close>, accumulating from 0 left to right.\<close>

fun sum_weighted :: "(string \<times> int) list \<Rightarrow> int \<Rightarrow> rat \<Rightarrow> string list \<Rightarrow> error + rat" where
  "sum_weighted word_freq mf acc [] = Inr acc"
| "sum_weighted word_freq mf acc (k # ks) =
     (case truediv (of_int (counter_get word_freq k)) (of_int mf) of
        Inl e \<Rightarrow> Inl e
      | Inr v \<Rightarrow> sum_weighted word_freq mf (acc + v) ks)"

text \<open>The value of one entry of the dict comprehension: \<open>sum(...) / len(j)\<close>.\<close>

definition sentence_freq :: "(string \<times> int) list \<Rightarrow> int \<Rightarrow> string list \<Rightarrow> error + rat" where
  "sentence_freq word_freq mf j =
     (case sum_weighted word_freq mf 0 j of
        Inl e \<Rightarrow> Inl e
      | Inr s \<Rightarrow> truediv s (of_nat (length j)))"

text \<open>
  The dict comprehension over \<open>enumerate(words)\<close>; the first entry that raises aborts
  it. The keys are distinct, so the Counter built from the dict has the same entries
  in the same order.
\<close>

fun freq_dict :: "(string \<times> int) list \<Rightarrow> int \<Rightarrow> (nat \<times> string list) list \<Rightarrow> error + (nat \<times> rat) list" where
  "freq_dict word_freq mf [] = Inr []"
| "freq_dict word_freq mf ((i, j) # r) =
     (case sentence_freq word_freq mf j of
        Inl e \<Rightarrow> Inl e
      | Inr v \<Rightarrow> (case freq_dict word_freq mf r of
                   Inl e \<Rightarrow> Inl e
                 | Inr d \<Rightarrow> Inr ((i, v) # d)))"

text \<open>Lines 121 to 126: the frequency model, its normaliser and the per-sentence scores.\<close>

definition freq_by_sentence :: "string list list \<Rightarrow> error + (nat \<times> rat) list" where
  "freq_by_sentence words =
     (let word_freq = Counter (concat words) in
      case max_freq word_freq of
        Inl e \<Rightarrow> Inl e
      | Inr mf \<Rightarrow> freq_dict word_freq mf (List.enumerate 0 words))"

subsection \<open>Selection\<close>

text \<open>
  \<open>Counter.most_common(n)\<close> is \<open>heapq.nlargest(n, self.items(), key=itemgetter(1))\<close>:
  the first \<open>n\<close> entries of the stable sort by descending value, and no entry
  when \<open>n \<le> 0\<close>.
\<close>

definition most_common :: "int \<Rightarrow> ('k \<times> rat) list \<Rightarrow> ('k \<times> rat) list" where
  "most_common n c = take (nat n) (sort_key (\<lambda>i. - snd i) c)"

text \<open>\<open>sorted(i[0] for i in freq_by_sentence.most_common(num_sentences))\<close>\<close>

definition selection :: "int \<Rightarrow> (nat \<times> rat) list \<Rightarrow> nat list" where
  "selection num_sentences fbs = sort (map fst (most_common num_sentences fbs))"

text \<open>\<open>sentences[j]\<close> for each selected \<open>j\<close>, IndexError out of range.\<close>

fun pick :: "string list \<Rightarrow> nat list \<Rightarrow> error + string list" where
  "pick sentences [] = Inr []"
| "pick sentences (j # js) =
     (if j < length sentences
      then (case pick sentences js of Inl e \<Rightarrow> Inl e | Inr r \<Rightarrow> Inr (sentences ! j # r))
      else Inl IndexError)"

text \<open>\<open>sep.join(xs)\<close>\<close>

fun join :: "string \<Rightarrow> string list \<Rightarrow> string" where
  "join sep [] = []"
| "join sep [x] = x"
| "join sep (x # y # r) = x @ sep @ join sep (y # r)"

subsection \<open>\<open>summarize\<close>\<close>

text \<open>The body of \<open>summarize\<close> from line 119 on, given \<open>sentences\<close> and \<open>words\<close>.\<close>

definition summarize_body :: "string list \<Rightarrow> string list list \<Rightarrow> int \<Rightarrow> error + retval" where
  "summarize_body sentences words num_sentences =
     (if words = [] then Inr (Sentences sentences)
      else case freq_by_sentence words of
        Inl e \<Rightarrow> Inl e
      | Inr fbs \<Rightarrow>
          (case pick sentences (selection num_sentences fbs) of
             Inl e \<Rightarrow> Inl e
           | Inr chosen \<Rightarrow> Inr (Summary (join '' '' chosen))))"

definition tokenize_all :: "(string \<Rightarrow> string list) \<Rightarrow> string list \<Rightarrow> string list \<Rightarrow> string list list" where
  "tokenize_all word_tokenize ignored_words sentences =
     map (\<lambda>i. filter_words ignored_words (word_tokenize i)) sentences"

definition summarize ::
  "(string \<Rightarrow> string list) \<Rightarrow> (string \<Rightarrow> string list) \<Rightarrow> string list \<Rightarrow> string \<Rightarrow> int \<Rightarrow> error + retval" where
  "summarize sent_tokenize word_tokenize ignored_words text num_sentences =
     (let sentences = sent_tokenize text;
          words = tokenize_all word_tokenize ignored_words sentences
      in summarize_body sentences words num_sentences)"

subsection \<open>Closed forms of the scores\<close>

text \<open>
  Auxiliary definitions for the proofs: the sum of weighted frequencies of a token
  list, the score list that \<open>freq_by_sentence\<close> returns when it does not raise
  (lemma \<open>freq_by_sentence_eq\<close>), and the order in which \<open>most_common\<close> ranks two
  entries.
\<close>

definition weight_sum :: "(string \<times> int) list \<Rightarrow> int \<Rightarrow> string list \<Rightarrow> rat" where
  "weight_sum word_freq mf j = (\<Sum>k\<leftarrow>j. of_int (counter_get word_freq k) / of_int mf)"

definition scores :: "string list list \<Rightarrow> (nat \<times> rat) list" where
  "scores words =
     (let word_freq = Counter (concat words);
          mf = int (count_list (concat words) (hd (concat words)))
      in map (\<lambda>(i, j). (i, weight_sum word_freq mf j / of_nat (length j))) (List.enumerate 0 words))"

definition outranks :: "nat \<times> rat \<Rightarrow> nat \<times> rat \<Rightarrow> bool" where
  "outranks a b \<longleftrightarrow> snd b < snd a \<or> (snd a = snd b \<and> fst a < fst b)"

subsection \<open>The specification's frequency model\<close>

text \<open>
  These two definitions follow the words of the specification, not the code.
  \<open>maxFrequency\<close>: "the greatest count value in the model (0 if the model is empty)",
  computed as a max-reduction over all counts.
  \<open>mean_normalized_frequency\<close>: "for each token t in tokens, look up model.count(t);
  normalize by model.maxFrequency(); sum the normalized values and divide by len(tokens)".
\<close>

definition maxFrequency :: "('a \<times> int) list \<Rightarrow> int" where
  "maxFrequency model = foldr max (map snd model) 0"

definition mean_normalized_frequency :: "(string \<times> int) list \<Rightarrow> string list \<Rightarrow> rat" where
  "mean_normalized_frequency model tokens =
     (\<Sum>t\<leftarrow>tokens. of_int (counter_get model t) / of_int (maxFrequency model))
       / of_nat (length tokens)"

section \<open>Properties of the model\<close>

subsection \<open>The Counter\<close>

lemma map_of_counter_incr:
  "map_of (counter_incr x c) = (map_of c)(x \<mapsto> counter_get c x + 1)"
  by (induction c) (auto simp: counter_get_def fun_eq_iff)

lemma counter_get_incr:
  "counter_get (counter_incr x c) k = counter_get c k + (if k = x then 1 else 0)"
  by (simp add: counter_get_def map_of_counter_incr)

lemma counter_get_foldl:
  "counter_get (foldl (\<lambda>c x. counter_incr x c) c xs) k = counter_get c k + int (count_list xs k)"
  by (induction xs arbitrary: c) (auto simp: counter_get_incr)

lemma counter_get_Counter: "counter_get (Counter xs) k = int (count_list xs k)"
  using counter_get_foldl [of "[]" xs k] by (simp add: Counter_def counter_get_def)

lemma foldl_incr_head:
  "\<exists>r. foldl (\<lambda>c x. counter_incr x c) ((y, n) # c) xs =
        (y, n + int (count_list xs y)) # r"
proof (induction xs arbitrary: n c)
  case Nil
  show ?case by simp
next
  case (Cons x xs)
  show ?case
  proof (cases "x = y")
    case True
    obtain r where "foldl (\<lambda>c x. counter_incr x c) ((y, n + 1) # c) xs = (y, n + 1 + int (count_list xs y)) # r"
      using Cons.IH by blast
    with True show ?thesis by simp
  next
    case False
    obtain r where "foldl (\<lambda>c x. counter_incr x c) ((y, n) # counter_incr x c) xs = (y, n + int (count_list xs y)) # r"
      using Cons.IH by blast
    with False show ?thesis by simp
  qed
qed

lemma max_freq_Counter:
  "max_freq (Counter xs) =
     (if xs = [] then Inl IndexError else Inr (int (count_list xs (hd xs))))"
proof (cases xs)
  case Nil
  then show ?thesis by (simp add: Counter_def max_freq_def)
next
  case (Cons x r)
  obtain q where "foldl (\<lambda>c x. counter_incr x c) [(x, 1)] r = (x, 1 + int (count_list r x)) # q"
    using foldl_incr_head [of x 1 "[]" r] by auto
  with Cons show ?thesis by (simp add: Counter_def max_freq_def)
qed




lemma count_list_hd_pos: "xs \<noteq> [] \<Longrightarrow> 0 < count_list xs (hd xs)"
  by (cases xs) auto

lemma sum_weighted_eq:
  "mf \<noteq> 0 \<Longrightarrow> sum_weighted c mf acc j = Inr (acc + weight_sum c mf j)"
  by (induction j arbitrary: acc) (auto simp: weight_sum_def truediv_def)

lemma sentence_freq_eq:
  "mf \<noteq> 0 \<Longrightarrow> sentence_freq c mf j =
     (if j = [] then Inl ZeroDivisionError else Inr (weight_sum c mf j / of_nat (length j)))"
  by (simp add: sentence_freq_def sum_weighted_eq truediv_def)

lemma freq_dict_eq:
  "mf \<noteq> 0 \<Longrightarrow> freq_dict c mf ijs =
     (if [] \<in> snd ` set ijs then Inl ZeroDivisionError
      else Inr (map (\<lambda>(i, j). (i, weight_sum c mf j / of_nat (length j))) ijs))"
  by (induction ijs) (auto simp: sentence_freq_eq)




subsection \<open>What \<open>summarize\<close> returns\<close>

lemma snd_set_enumerate: "snd ` set (List.enumerate n xs) = set xs"
proof -
  have "set (map snd (List.enumerate n xs)) = set xs" by simp
  then show ?thesis by (simp only: set_map)
qed

lemma freq_by_sentence_eq:
  "freq_by_sentence words =
     (if concat words = [] then Inl IndexError
      else if [] \<in> set words then Inl ZeroDivisionError
      else Inr (scores words))"
proof (cases "concat words = []")
  case True
  then show ?thesis by (simp add: freq_by_sentence_def max_freq_Counter)
next
  case False
  then have "int (count_list (concat words) (hd (concat words))) \<noteq> 0"
    using count_list_hd_pos [of "concat words"] by simp
  with False show ?thesis
    by (simp add: freq_by_sentence_def max_freq_Counter freq_dict_eq scores_def Let_def
          snd_set_enumerate)
qed

lemma map_fst_scores: "map fst (scores words) = [0..<length words]"
  by (simp add: scores_def Let_def case_prod_unfold comp_def)

lemma length_scores: "length (scores words) = length words"
  by (simp add: scores_def Let_def)

lemma pick_eq:
  "pick sentences js =
     (if list_all (\<lambda>j. j < length sentences) js then Inr (map ((!) sentences) js) else Inl IndexError)"
  by (induction js) auto

lemma set_most_common: "set (most_common n c) \<subseteq> set c"
  by (auto simp: most_common_def dest: in_set_takeD)

lemma set_selection: "set (selection n fbs) \<subseteq> fst ` set fbs"
  using set_most_common [of n fbs] by (auto simp: selection_def)

lemma selection_in_range:
  "length words \<le> length sentences \<Longrightarrow> list_all (\<lambda>j. j < length sentences) (selection n (scores words))"
proof -
  assume le: "length words \<le> length sentences"
  have "set (selection n (scores words)) \<subseteq> set (map fst (scores words))"
    using set_selection [of n "scores words"] by simp
  then have "set (selection n (scores words)) \<subseteq> {0..<length words}"
    by (simp add: map_fst_scores)
  with le show ?thesis by (auto simp: list_all_iff)
qed

lemma summarize_body_eq:
  assumes "length words \<le> length sentences"
  shows "summarize_body sentences words n =
     (if words = [] then Inr (Sentences sentences)
      else if concat words = [] then Inl IndexError
      else if [] \<in> set words then Inl ZeroDivisionError
      else Inr (Summary (join '' '' (map ((!) sentences) (selection n (scores words))))))"
  using selection_in_range [OF assms, of n]
  by (simp add: summarize_body_def freq_by_sentence_eq pick_eq)

lemma length_tokenize_all: "length (tokenize_all wt iw ss) = length ss"
  by (simp add: tokenize_all_def)

lemma summarize_eq:
  "summarize st wt iw text n =
     (let sentences = st text; words = tokenize_all wt iw sentences in
      if sentences = [] then Inr (Sentences [])
      else if concat words = [] then Inl IndexError
      else if [] \<in> set words then Inl ZeroDivisionError
      else Inr (Summary (join '' '' (map ((!) sentences) (selection n (scores words))))))"
proof -
  have "length (tokenize_all wt iw (st text)) \<le> length (st text)"
    by (simp add: length_tokenize_all)
  from summarize_body_eq [OF this, of n] show ?thesis
    by (auto simp: summarize_def Let_def tokenize_all_def)
qed

subsection \<open>Ranking and selection\<close>

lemma insort_outranks:
  assumes "sorted_wrt outranks ys" "sorted (map (\<lambda>i. - snd i) ys)" "\<forall>y\<in>set ys. fst x < fst y"
  shows "sorted_wrt outranks (insort_key (\<lambda>i. - snd i) x ys)"
  using assms
proof (induction ys)
  case Nil
  then show ?case by simp
next
  case (Cons y ys)
  show ?case
  proof (cases "- snd x \<le> - snd y")
    case True
    have "outranks x z" if "z \<in> set (y # ys)" for z
    proof -
      have "- snd y \<le> - snd z" using Cons.prems(2) that by auto
      with True have "snd z \<le> snd x" by simp
      moreover have "fst x < fst z" using Cons.prems(3) that by blast
      ultimately show ?thesis by (auto simp: outranks_def)
    qed
    with True Cons.prems(1) show ?thesis by simp
  next
    case False
    then have "outranks y x" by (simp add: outranks_def)
    moreover have "sorted_wrt outranks (insort_key (\<lambda>i. - snd i) x ys)"
      using Cons by simp
    ultimately show ?thesis using False Cons.prems(1) by (auto simp: set_insort_key)
  qed
qed

lemma sort_key_outranks:
  "sorted_wrt (\<lambda>a b. fst a < fst b) xs \<Longrightarrow> sorted_wrt outranks (sort_key (\<lambda>i. - snd i) xs)"
proof (induction xs)
  case Nil
  then show ?case by simp
next
  case (Cons x xs)
  then have "sorted_wrt outranks (sort_key (\<lambda>i. - snd i) xs)" by simp
  moreover have "\<forall>y\<in>set (sort_key (\<lambda>i. - snd i) xs). fst x < fst y"
    using Cons.prems by simp
  ultimately show ?case by (simp add: insort_outranks)
qed

lemma outranks_asym: "outranks a b \<Longrightarrow> \<not> outranks b a"
  by (auto simp: outranks_def)

lemma sorted_wrt_before:
  assumes "sorted_wrt outranks ys" "a \<in> set ys" "b \<in> set ys" "outranks a b"
  shows "\<exists>p q. p < q \<and> q < length ys \<and> ys ! p = a \<and> ys ! q = b"
proof -
  obtain p where p: "p < length ys" "ys ! p = a" using assms(2) by (auto simp: in_set_conv_nth)
  obtain q where q: "q < length ys" "ys ! q = b" using assms(3) by (auto simp: in_set_conv_nth)
  have "p \<noteq> q" using p q assms(4) by (auto simp: outranks_def)
  moreover have "\<not> q < p"
  proof
    assume "q < p"
    then have "outranks b a" using sorted_wrt_nth_less [OF assms(1), of q p] p q by simp
    with assms(4) show False using outranks_asym by blast
  qed
  ultimately have "p < q" by simp
  with p q show ?thesis by blast
qed

lemma sorted_fst_scores: "sorted_wrt (\<lambda>a b. fst a < fst b) (scores words)"
proof -
  have "sorted_wrt (<) (map fst (scores words))" by (simp add: map_fst_scores)
  then show ?thesis by (simp add: sorted_wrt_map)
qed

lemma distinct_fst_scores: "distinct (map fst (scores words))"
  by (simp add: map_fst_scores)

lemma distinct_fst_increasing:
  fixes fbs :: "(nat \<times> rat) list"
  shows "sorted_wrt (\<lambda>a b. fst a < fst b) fbs \<Longrightarrow> distinct (map fst fbs)"
proof -
  assume "sorted_wrt (\<lambda>a b. fst a < fst b) fbs"
  then have "sorted_wrt (<) (map fst fbs)" by (simp add: sorted_wrt_map)
  then show ?thesis by (simp add: strict_sorted_iff)
qed

lemma ranking_before:
  fixes fbs :: "(nat \<times> rat) list"
  assumes "sorted_wrt (\<lambda>a b. fst a < fst b) fbs"
    and "(i, s) \<in> set fbs" "(j, t) \<in> set fbs"
    and "t < s \<or> (s = t \<and> i < j)"
  shows "\<exists>p q. p < q \<and> q < length fbs
           \<and> sort_key (\<lambda>e. - snd e) fbs ! p = (i, s)
           \<and> sort_key (\<lambda>e. - snd e) fbs ! q = (j, t)"
proof -
  have "outranks (i, s) (j, t)" using assms(4) by (auto simp: outranks_def)
  from sorted_wrt_before [OF sort_key_outranks [OF assms(1)], of "(i, s)" "(j, t)"]
    assms(2,3) this
  show ?thesis by simp
qed

lemma selection_closed:
  assumes "sorted_wrt (\<lambda>a b. fst a < fst b) fbs"
    and "(i, s) \<in> set fbs" "(j, t) \<in> set fbs"
    and "t < s \<or> (s = t \<and> i < j)"
    and "j \<in> set (selection k fbs)"
  shows "i \<in> set (selection k fbs)"
proof -
  let ?ys = "sort_key (\<lambda>e. - snd e) fbs"
  obtain p q where pq: "p < q" "q < length fbs" "?ys ! p = (i, s)" "?ys ! q = (j, t)"
    using ranking_before [OF assms(1-4)] by blast
  have len: "length ?ys = length fbs" by simp
  have dist: "distinct (map fst ?ys)"
    using distinct_fst_increasing [OF assms(1)] by (simp add: distinct_map)
  from assms(5) obtain e where e: "e \<in> set (take (nat k) ?ys)" "fst e = j"
    by (auto simp: selection_def most_common_def)
  then obtain r where r: "r < length (take (nat k) ?ys)" "take (nat k) ?ys ! r = e"
    by (auto simp: in_set_conv_nth)
  then have r': "r < nat k" "r < length ?ys" "?ys ! r = e" by simp_all
  have "map fst ?ys ! r = map fst ?ys ! q" using r' e pq len by simp
  moreover have "r < length (map fst ?ys)" "q < length (map fst ?ys)" using r' pq len by simp_all
  ultimately have "r = q" using nth_eq_iff_index_eq [OF dist, of r q] by blast
  then have "p < nat k" using pq r' by simp
  then have "take (nat k) ?ys ! p = (i, s)" using pq by simp
  moreover have "p < length (take (nat k) ?ys)" using \<open>p < nat k\<close> pq len by simp
  ultimately have "(i, s) \<in> set (take (nat k) ?ys)" by (metis nth_mem)
  then have "fst (i, s) \<in> fst ` set (take (nat k) ?ys)" by (rule imageI)
  then show ?thesis by (simp add: selection_def most_common_def)
qed

lemma strict_sorted_selection: "sorted_wrt (<) (selection k (scores words))"
proof -
  have "distinct (map fst (sort_key (\<lambda>e. - snd e) (scores words)))"
    using distinct_fst_scores [of words] by (simp add: distinct_map)
  then have "distinct (take (nat k) (map fst (sort_key (\<lambda>e. - snd e) (scores words))))"
    by (rule distinct_take)
  then show ?thesis
    by (simp add: selection_def most_common_def strict_sorted_iff take_map)
qed

lemma length_selection: "length (selection k fbs) = min (nat k) (length fbs)"
  by (simp add: selection_def most_common_def)

lemma selection_all:
  assumes "int (length words) \<le> k"
  shows "selection k (scores words) = [0..<length words]"
proof -
  have "take (nat k) (sort_key (\<lambda>e. - snd e) (scores words)) = sort_key (\<lambda>e. - snd e) (scores words)"
    using assms by (simp add: length_scores)
  then have "set (selection k (scores words)) = set (map fst (scores words))"
    by (simp add: selection_def most_common_def)
  then have "set (selection k (scores words)) = set [0..<length words]"
    by (simp only: map_fst_scores)
  moreover have "sorted (selection k (scores words))" "distinct (selection k (scores words))"
    using strict_sorted_selection [of k words] by (simp_all add: strict_sorted_iff)
  ultimately show ?thesis
    by (intro sorted_distinct_set_unique) simp_all
qed

lemma selection_nonpositive: "k \<le> 0 \<Longrightarrow> selection k fbs = []"
  by (simp add: selection_def most_common_def)

lemma summarize_nonpositive:
  assumes "k \<le> 0" "summarize st wt iw text k = Inr r"
  shows "r = Summary [] \<or> r = Sentences []"
  using assms by (auto simp: summarize_eq Let_def selection_nonpositive split: if_splits)

section \<open>The claims\<close>

text \<open>
  Claim C1: for every valid text, also the empty one and one made of stopwords and
  punctuation only, and every \<open>k\<close>, \<open>summarize\<close> returns normally, with the
  fallback when no sentence is scorable, and never raises.

  The code does not do this. Its guard \<open>if not words\<close> tests the list of per-sentence
  token lists, which is empty only when there is no sentence at all, although its
  comment reads "Return whole text if cannot extract any distinguishing words". On the
  specification's own example \<open>the. a, an!\<close> (two sentences, every token a stopword or
  punctuation) the Counter is empty and \<open>list(word_freq.values())[0]\<close> raises IndexError.
\<close>

theorem unscorable_text_raises:
  "summarize (\<lambda>t. [''the.'', ''a, an!''])
     (\<lambda>s. if s = ''the.'' then [''the'', ''.''] else [''a'', '','', ''an'', ''!''])
     [''the'', ''a'', ''an''] ''the. a, an!'' DEFAULT_SENTENCES = Inl IndexError"
  by code_simp

text \<open>
  Claim C2: a sentence whose filtered token list is empty is left out of scoring and
  ranking, and the division by the sentence's token count never divides by zero,
  because the empty case is filtered out beforehand.

  The code has no such filter: the dict comprehension runs over every entry of
  \<open>enumerate(words)\<close> and divides by \<open>len(j)\<close>. On \<open>Cats Purr. the\<close> the second
  sentence keeps no token, and its entry is \<open>0 / 0\<close>: ZeroDivisionError.
\<close>

theorem empty_sentence_divides_by_zero:
  "summarize (\<lambda>t. [''Cats Purr.'', ''the''])
     (\<lambda>s. if s = ''the'' then [''the''] else [''Cats'', ''Purr'', ''.''])
     [''the''] ''Cats Purr. the'' DEFAULT_SENTENCES = Inl ZeroDivisionError
   \<and> tokenize_all (\<lambda>s. if s = ''the'' then [''the''] else [''Cats'', ''Purr'', ''.''])
        [''the''] [''Cats Purr.'', ''the''] = [[''Cats'', ''Purr''], []]
   \<and> freq_by_sentence [[''Cats'', ''Purr''], []] = Inl ZeroDivisionError"
  by code_simp

text \<open>
  Claim C3: whenever there is a significant token, the value used for normalisation
  is the greatest count in the frequency model, whatever order the container iterates
  in, so that every normalised value \<open>count(t) / maxFrequency\<close> lies in \<open>(0, 1]\<close>.

  The code takes the first value of the Counter, which is the count of the first
  token of the text (a Counter iterates in insertion order, not by descending count,
  against the comment on that line). On \<open>Pizza Tacos Tacos\<close> it normalises by 1
  although the greatest count is 2, and the normalised value of \<open>Tacos\<close> is 2.
\<close>

theorem max_freq_is_first_count:
  "Counter (concat [[''Pizza'', ''Tacos'', ''Tacos'']]) = [(''Pizza'', 1), (''Tacos'', 2)]
   \<and> max_freq [(''Pizza'', 1), (''Tacos'', 2)] = Inr 1
   \<and> maxFrequency [(''Pizza'', 1), (''Tacos'', 2)] = 2
   \<and> truediv (of_int (counter_get [(''Pizza'', 1), (''Tacos'', 2)] ''Tacos'')) (of_int 1) = Inr 2"
  by code_simp

text \<open>
  Claim C4: the score of a sentence with tokens is the sum over its tokens \<open>t\<close> of
  \<open>count(t) / maxFrequency\<close>, divided by the number of its tokens, with the counts
  of the whole request.

  With \<open>maxFrequency\<close> the greatest count, as the specification defines it, the code
  computes another number whenever the first token of the text is not a most frequent
  one: it divides by the first token's count. On \<open>Pizza Tacos Tacos\<close> the score is
  \<open>(1/1 + 2/1 + 2/1) / 3 = 5/3\<close>, the mean normalised frequency is
  \<open>(1/2 + 2/2 + 2/2) / 3 = 5/6\<close>.
\<close>

theorem score_not_mean_normalized:
  "freq_by_sentence [[''Pizza'', ''Tacos'', ''Tacos'']] = Inr [(0, 5 / 3)]
   \<and> mean_normalized_frequency (Counter (concat [[''Pizza'', ''Tacos'', ''Tacos'']]))
        [''Pizza'', ''Tacos'', ''Tacos''] = 5 / 6"
  by code_simp

text \<open>
  Claim C5: whenever two sentences have equal scores, the one with the lower index
  ranks higher in the selection; in particular, of two sentences with identical
  word-sets and lengths (hence identical scores) and \<open>k = 1\<close>, the earlier one is
  selected.

  The rule for ties holds, the inference in the parenthesis does not. Two sentences
  over the same set of words and of the same length can use the words with different
  multiplicities and then score differently: in
  \<open>Red Red Red Blue Blue. Red Blue Blue Blue Blue.\<close> the counts are 4 and 6, the
  normaliser is 4, the scores are \<open>6/5\<close> and \<open>7/5\<close>, and with \<open>k = 1\<close> the later
  sentence is the summary.
\<close>

theorem same_word_set_later_selected:
  "set [''Red'', ''Red'', ''Red'', ''Blue'', ''Blue''] = set [''Red'', ''Blue'', ''Blue'', ''Blue'', ''Blue'']
   \<and> length [''Red'', ''Red'', ''Red'', ''Blue'', ''Blue''] = length [''Red'', ''Blue'', ''Blue'', ''Blue'', ''Blue'']
   \<and> freq_by_sentence [[''Red'', ''Red'', ''Red'', ''Blue'', ''Blue''], [''Red'', ''Blue'', ''Blue'', ''Blue'', ''Blue'']]
       = Inr [(0, 6 / 5), (1, 7 / 5)]
   \<and> summarize_body [''Red Red Red Blue Blue.'', ''Red Blue Blue Blue Blue.'']
       [[''Red'', ''Red'', ''Red'', ''Blue'', ''Blue''], [''Red'', ''Blue'', ''Blue'', ''Blue'', ''Blue'']] 1
       = Inr (Summary ''Red Blue Blue Blue Blue.'')"
  by code_simp

text \<open>
  Claim C5, amended: in the score Counter, whose entries stand in ascending sentence
  index, of two entries with equal scores the one with the lower index stands earlier
  in the ranking of \<open>most_common\<close> and is selected whenever the other one is; in
  particular, with two sentences of identical scores and \<open>k = 1\<close> the earlier sentence
  is the summary. The rule is stated for every score list with increasing keys, so it
  holds of the scores the program computes in doubles (every double is a rational, and
  the two are compared alike) as of the exact ones; the keys of the list that
  \<open>freq_by_sentence\<close> builds are increasing.
\<close>

theorem ties_resolved_by_position:
  "(sorted_wrt (\<lambda>a b. fst a < fst b) fbs \<and> (i, s) \<in> set fbs \<and> (j, s) \<in> set fbs \<and> i < j \<longrightarrow>
      (\<exists>p q. p < q \<and> q < length fbs
         \<and> most_common (int (length fbs)) fbs ! p = (i, s)
         \<and> most_common (int (length fbs)) fbs ! q = (j, s))
      \<and> (j \<in> set (selection k fbs) \<longrightarrow> i \<in> set (selection k fbs)))
   \<and> selection 1 [(0, s), (1, s)] = [0]
   \<and> pick [a, b] (selection 1 [(0, s), (1, s)]) = Inr [a]
   \<and> join '' '' [a] = a
   \<and> (freq_by_sentence words = Inr scored \<longrightarrow> sorted_wrt (\<lambda>a b. fst a < fst b) scored)"
proof (intro conjI impI)
  assume h: "sorted_wrt (\<lambda>a b. fst a < fst b) fbs \<and> (i, s) \<in> set fbs \<and> (j, s) \<in> set fbs \<and> i < j"
  have full: "most_common (int (length fbs)) fbs = sort_key (\<lambda>e. - snd e) fbs"
    by (simp add: most_common_def)
  from h show "\<exists>p q. p < q \<and> q < length fbs
         \<and> most_common (int (length fbs)) fbs ! p = (i, s)
         \<and> most_common (int (length fbs)) fbs ! q = (j, s)"
    unfolding full using ranking_before [of fbs i s j s] by simp
  assume "j \<in> set (selection k fbs)"
  with h show "i \<in> set (selection k fbs)"
    using selection_closed [of fbs i s j s k] by simp
next
  show sel: "selection 1 [(0, s), (1, s)] = [0]"
    by (simp add: selection_def most_common_def)
  show "pick [a, b] (selection 1 [(0, s), (1, s)]) = Inr [a]"
    unfolding sel by simp
  show "join '' '' [a] = a" by simp
next
  assume "freq_by_sentence words = Inr scored"
  then have "scored = scores words"
    by (auto simp: freq_by_sentence_eq split: if_splits)
  then show "sorted_wrt (\<lambda>a b. fst a < fst b) scored"
    by (simp add: sorted_fst_scores)
qed

theorem ties_resolved_by_position_witness:
  "sorted_wrt (\<lambda>a b. fst a < fst b) [(0 :: nat, 1 :: rat), (1, 1 / 2), (2, 1)]
   \<and> selection 2 [(0, 1), (1, 1 / 2), (2, 1)] = [0, 2]
   \<and> (\<exists>p q. p < q \<and> q < length [(0 :: nat, 1 :: rat), (1, 1 / 2), (2, 1)]
         \<and> most_common (int (length [(0 :: nat, 1 :: rat), (1, 1 / 2), (2, 1)]))
              [(0 :: nat, 1 :: rat), (1, 1 / 2), (2, 1)] ! p = (0, 1)
         \<and> most_common (int (length [(0 :: nat, 1 :: rat), (1, 1 / 2), (2, 1)]))
              [(0 :: nat, 1 :: rat), (1, 1 / 2), (2, 1)] ! q = (2, 1))
   \<and> 0 \<in> set (selection 2 [(0, 1), (1, 1 / 2), (2, 1)])
   \<and> pick [''X Y.'', ''X Y!''] (selection 1 [(0, 1), (1, 1)]) = Inr [''X Y.'']
   \<and> freq_by_sentence [[''X''], [''Y''], [''X'']] = Inr [(0, 1), (1, 1 / 2), (2, 1)]"
proof -
  have f: "freq_by_sentence [[''X''], [''Y''], [''X'']] = Inr [(0, 1), (1, 1 / 2), (2, 1)]"
    by code_simp
  have sel: "selection 2 [(0, 1), (1, 1 / 2), (2, 1)] = [0, 2]"
    by code_simp
  note T = ties_resolved_by_position [where fbs = "[(0, 1), (1, 1 / 2), (2, 1)]"
      and i = 0 and j = 2 and s = 1 and k = 2
      and a = "''X Y.''" and b = "''X Y!''"
      and words = "[[''X''], [''Y''], [''X'']]" and scored = "[(0, 1), (1, 1 / 2), (2, 1)]"]
  note srt = conjunct2 [OF conjunct2 [OF conjunct2 [OF conjunct2 [OF T]]], THEN mp, OF f]
  have hyp: "sorted_wrt (\<lambda>a b. fst a < fst b) [(0 :: nat, 1 :: rat), (1, 1 / 2), (2, 1)]
      \<and> (0, 1) \<in> set [(0 :: nat, 1 :: rat), (1, 1 / 2), (2, 1)]
      \<and> (2, 1) \<in> set [(0 :: nat, 1 :: rat), (1, 1 / 2), (2, 1)] \<and> (0 :: nat) < 2"
    using srt by simp
  note A = conjunct1 [OF T, THEN mp, OF hyp]
  have in2: "2 \<in> set (selection 2 [(0, 1), (1, 1 / 2), (2, 1)])"
    unfolding sel by simp
  note B = conjunct1 [OF conjunct2 [OF conjunct2 [OF T]]]
  show ?thesis
    by (intro conjI srt sel conjunct1 [OF A] conjunct2 [OF A, THEN mp, OF in2] B f)
qed

text \<open>
  Claim C6: for every input and every \<open>k\<close>, the sentences of the returned summary
  stand in the order they have in the text: if A precedes B in the input and both are
  selected, A precedes B in the output.

  Whenever \<open>summarize\<close> returns a summary, the summary is the join of the sentences at
  the selected indices, taken in strictly increasing index order, each index within
  the text.
\<close>

theorem summary_in_document_order:
  assumes "summarize st wt iw text k = Inr (Summary s)"
  shows "\<exists>fbs. freq_by_sentence (tokenize_all wt iw (st text)) = Inr fbs
           \<and> s = join '' '' (map ((!) (st text)) (selection k fbs))
           \<and> sorted_wrt (<) (selection k fbs)
           \<and> list_all (\<lambda>i. i < length (st text)) (selection k fbs)"
proof -
  let ?words = "tokenize_all wt iw (st text)"
  from assms have ok: "concat ?words \<noteq> []" "[] \<notin> set ?words"
    and s: "s = join '' '' (map ((!) (st text)) (selection k (scores ?words)))"
    by (auto simp: summarize_eq Let_def split: if_splits)
  from ok have "freq_by_sentence ?words = Inr (scores ?words)"
    by (simp add: freq_by_sentence_eq)
  moreover have "list_all (\<lambda>i. i < length (st text)) (selection k (scores ?words))"
    using selection_in_range [of ?words "st text" k] by (simp add: length_tokenize_all)
  ultimately show ?thesis using s strict_sorted_selection [of k ?words] by blast
qed

theorem summary_in_document_order_witness:
  "summarize (\<lambda>t. [''AB.'', ''BB.'', ''C.'']) (map (\<lambda>c. [c])) [] ''AB. BB. C.'' 2
     = Inr (Summary ''AB. BB.'')
   \<and> (\<exists>fbs. freq_by_sentence (tokenize_all (map (\<lambda>c. [c])) [] [''AB.'', ''BB.'', ''C.'']) = Inr fbs
           \<and> ''AB. BB.'' = join '' '' (map ((!) [''AB.'', ''BB.'', ''C.'']) (selection 2 fbs))
           \<and> sorted_wrt (<) (selection 2 fbs)
           \<and> list_all (\<lambda>i. i < length [''AB.'', ''BB.'', ''C.'']) (selection 2 fbs))
   \<and> freq_by_sentence (tokenize_all (map (\<lambda>c. [c])) [] [''AB.'', ''BB.'', ''C.''])
       = Inr [(0, 2), (1, 3), (2, 1)]
   \<and> most_common 2 [(0 :: nat, 2), (1, 3), (2, 1)] = [(1, 3), (0, 2)]
   \<and> selection 2 [(0, 2), (1, 3), (2, 1)] = [0, 1]"
proof -
  have h: "summarize (\<lambda>t. [''AB.'', ''BB.'', ''C.'']) (map (\<lambda>c. [c])) [] ''AB. BB. C.'' 2
     = Inr (Summary ''AB. BB.'')"
    by code_simp
  have c: "\<exists>fbs. freq_by_sentence (tokenize_all (map (\<lambda>c. [c])) [] [''AB.'', ''BB.'', ''C.'']) = Inr fbs
           \<and> ''AB. BB.'' = join '' '' (map ((!) [''AB.'', ''BB.'', ''C.'']) (selection 2 fbs))
           \<and> sorted_wrt (<) (selection 2 fbs)
           \<and> list_all (\<lambda>i. i < length [''AB.'', ''BB.'', ''C.'']) (selection 2 fbs)"
    by (rule summary_in_document_order [OF h])
  have f: "freq_by_sentence (tokenize_all (map (\<lambda>c. [c])) [] [''AB.'', ''BB.'', ''C.''])
       = Inr [(0, 2), (1, 3), (2, 1)]"
    by code_simp
  have m: "most_common 2 [(0 :: nat, 2), (1, 3), (2, 1)] = [(1, 3), (0, 2)]"
    by code_simp
  have sel: "selection 2 [(0, 2), (1, 3), (2, 1)] = [0, 1]"
    by code_simp
  show ?thesis by (intro conjI h c f m sel)
qed

text \<open>
  Claim C7: for every input with at least one scorable sentence and every \<open>k \<ge> 1\<close>,
  the summary holds exactly \<open>min(k, number of scorable sentences)\<close> sentences, and all
  of them in original order when \<open>k\<close> is large enough, with no error when fewer than
  \<open>k\<close> sentences have a score.

  The code raises as soon as one sentence of a text with tokens has none (the defect
  of claim C2). \<open>Dogs Bark. the. Cats Purr.\<close> has two scorable sentences; with
  \<open>k = 2\<close> the claim promises both of them, the code raises ZeroDivisionError.
  Where every sentence has a token the count is as claimed: lemmas
  \<open>length_selection\<close> and \<open>selection_all\<close>.
\<close>

theorem partly_scorable_text_raises:
  "summarize (\<lambda>t. [''Dogs Bark.'', ''the.'', ''Cats Purr.''])
     (\<lambda>s. if s = ''the.'' then [''the'', ''.'']
          else if s = ''Dogs Bark.'' then [''Dogs'', ''Bark'', ''.'']
          else [''Cats'', ''Purr'', ''.''])
     [''the''] ''Dogs Bark. the. Cats Purr.'' 2 = Inl ZeroDivisionError
   \<and> tokenize_all (\<lambda>s. if s = ''the.'' then [''the'', ''.'']
          else if s = ''Dogs Bark.'' then [''Dogs'', ''Bark'', ''.'']
          else [''Cats'', ''Purr'', ''.''])
        [''the''] [''Dogs Bark.'', ''the.'', ''Cats Purr.'']
       = [[''Dogs'', ''Bark''], [], [''Cats'', ''Purr'']]"
  by code_simp




text \<open>
  Claim C9: for every text and every \<open>k \<le> 0\<close> the caller gets the empty summary or a
  rejected call, never a non-empty summary and never a crash.

  Where the code returns at all with \<open>k \<le> 0\<close> it returns the empty summary (lemma
  \<open>summarize_nonpositive\<close>), but it never looks at \<open>k\<close> before it builds the scores,
  so the crash of claim C1 is there for \<open>k \<le> 0\<close> too: text \<open>the\<close> raises IndexError
  for \<open>k = 0\<close> and for \<open>k = -1\<close>.
\<close>

theorem nonpositive_k_raises:
  "summarize (\<lambda>t. [t]) (\<lambda>s. [s]) [''the''] ''the'' 0 = Inl IndexError
   \<and> summarize (\<lambda>t. [t]) (\<lambda>s. [s]) [''the''] ''the'' (- 1) = Inl IndexError"
  by code_simp

text \<open>
  Claim C10: \<open>summarize\<close> takes its fallback branch exactly when the segmentation of
  the text yields no sentence (not whenever no sentence is scorable), and there it
  returns the sequence of segmented sentences itself, which for the empty text is the
  empty sequence, not a joined string.
\<close>

theorem fallback_iff_no_sentences:
  "((\<exists>ss. summarize st wt iw text k = Inr (Sentences ss)) \<longleftrightarrow> st text = [])
   \<and> (st text = [] \<longrightarrow> summarize st wt iw text k = Inr (Sentences (st text)))
   \<and> (st [] = [] \<longrightarrow> summarize st wt iw [] k = Inr (Sentences []))"
  by (auto simp: summarize_eq Let_def)

theorem fallback_iff_no_sentences_witness:
  "(\<lambda>t. if t = [] then [] else [t]) [] = ([] :: string list)
   \<and> summarize (\<lambda>t. if t = [] then [] else [t]) (\<lambda>s. [s]) [''the''] [] 5 = Inr (Sentences [])
   \<and> \<not> (\<exists>ss. summarize (\<lambda>t. if t = [] then [] else [t]) (\<lambda>s. [s]) [''the''] ''the'' 5 = Inr (Sentences ss))"
  using fallback_iff_no_sentences [of "\<lambda>t. if t = [] then [] else [t]" "\<lambda>s. [s]" "[''the'']" "[]" 5]
    fallback_iff_no_sentences [of "\<lambda>t. if t = [] then [] else [t]" "\<lambda>s. [s]" "[''the'']" "''the''" 5]
  by simp

end
